theory Spec2Isabelle
  imports Complex_Main "HOL-Library.Sublist" "HOL-Library.AList" "HOL-Library.Monad_Syntax"
begin

section \<open>The delta-debugging engine (\<^verbatim>\<open>minimizer._ddmin\<close>)\<close>

text \<open>
  The predicate handed to \<^verbatim>\<open>_ddmin\<close> is a closure that talks to the network and
  overwrites a \<^verbatim>\<open>nonlocal\<close> variable, so it is modelled as a state transformer
  \<open>'a list \<Rightarrow> 's \<Rightarrow> bool \<times> 's\<close>: the verdict and the state after the call.
  Both \<^verbatim>\<open>while\<close> loops are partial functions into \<open>option\<close>: \<open>None\<close> is a loop
  that never returns, and that the loops do return is proved below, not assumed.

  \<^verbatim>\<open>math.ceil(len(collection) / n)\<close> is the integer ceiling \<open>ceil_div\<close>; the float
  quotient of the source is exact for every list shorter than \<open>2 ^ 53\<close>.
\<close>

definition ceil_div :: "nat \<Rightarrow> nat \<Rightarrow> nat" where
  "ceil_div a b = (a + b - 1) div b"

text \<open>\<^verbatim>\<open>max_tests is not None and tests >= max_tests\<close>\<close>

definition budget_spent :: "int option \<Rightarrow> nat \<Rightarrow> bool" where
  "budget_spent max_tests tests =
     (case max_tests of None \<Rightarrow> False | Some m \<Rightarrow> m \<le> int tests)"

text \<open>
  How the inner loop (\<^verbatim>\<open>while start < len(collection)\<close>) ends: the budget ran out
  (the \<^verbatim>\<open>return collection, tests\<close> inside it), a chunk was removed (\<^verbatim>\<open>break\<close> with
  \<^verbatim>\<open>removed = True\<close>), or every chunk was tried and kept. Each carries the test
  counter and the predicate's state.
\<close>

datatype ('a, 's) scan =
    Exhausted nat 's
  | Removed "'a list" nat 's
  | Unchanged nat 's

partial_function (option) ddmin_scan ::
  "('a list \<Rightarrow> 's \<Rightarrow> bool \<times> 's) \<Rightarrow> int option \<Rightarrow> 'a list \<Rightarrow> nat \<Rightarrow> nat \<Rightarrow> nat \<Rightarrow> 's
     \<Rightarrow> ('a, 's) scan option" where
  "ddmin_scan test_func max_tests collection subset_size start tests s =
     (if start < length collection then
        (if budget_spent max_tests tests then Some (Exhausted tests s)
         else
           let remainder = take start collection @ drop (start + subset_size) collection;
               (passed, s') = test_func remainder s
           in if passed then Some (Removed remainder (tests + 1) s')
              else ddmin_scan test_func max_tests collection subset_size
                     (start + subset_size) (tests + 1) s')
      else Some (Unchanged tests s))"

text \<open>
  One round of the outer loop (its body): either the function returns, or the loop goes
  on with a new collection and granularity.
\<close>

datatype ('a, 's) round =
    Return "('a list \<times> nat) \<times> 's"
  | Continue "'a list" nat nat 's

definition ddmin_round ::
  "('a list \<Rightarrow> 's \<Rightarrow> bool \<times> 's) \<Rightarrow> int option \<Rightarrow> 'a list \<Rightarrow> nat \<Rightarrow> nat \<Rightarrow> 's
     \<Rightarrow> ('a, 's) round option" where
  "ddmin_round test_func max_tests collection n tests s =
     do {
       r \<leftarrow> ddmin_scan test_func max_tests collection (ceil_div (length collection) n) 0 tests s;
       Some (case r of
           Exhausted tests' s' \<Rightarrow> Return ((collection, tests'), s')
         | Removed remainder tests' s' \<Rightarrow> Continue remainder (max (n - 1) 2) tests' s'
         | Unchanged tests' s' \<Rightarrow>
             if n \<ge> length collection then Return ((collection, tests'), s')
             else Continue collection (min (length collection) (n * 2)) tests' s')
     }"

partial_function (option) ddmin_loop ::
  "('a list \<Rightarrow> 's \<Rightarrow> bool \<times> 's) \<Rightarrow> int option \<Rightarrow> 'a list \<Rightarrow> nat \<Rightarrow> nat \<Rightarrow> 's
     \<Rightarrow> (('a list \<times> nat) \<times> 's) option" where
  "ddmin_loop test_func max_tests collection n tests s =
     (if length collection \<ge> 1 then
        do {
          r \<leftarrow> ddmin_round test_func max_tests collection n tests s;
          case r of
            Return result \<Rightarrow> Some result
          | Continue collection' n' tests' s' \<Rightarrow>
              ddmin_loop test_func max_tests collection' n' tests' s'
        }
      else Some ((collection, tests), s))"

declare ddmin_scan.simps [code]
declare ddmin_loop.simps [code]

definition ddmin ::
  "'a list \<Rightarrow> ('a list \<Rightarrow> 's \<Rightarrow> bool \<times> 's) \<Rightarrow> int option \<Rightarrow> 's
     \<Rightarrow> (('a list \<times> nat) \<times> 's) option" where
  "ddmin items test_func max_tests s =
     (if items = [] then Some (([], 0), s)
      else if (case max_tests of None \<Rightarrow> False | Some m \<Rightarrow> m \<le> 0) then Some ((items, 0), s)
      else ddmin_loop test_func max_tests items 2 0 s)"

text \<open>
  Instrumentation for statements about the calls of the predicate: \<open>counting\<close> runs the
  predicate and counts the call in an extra component of the state.
\<close>

definition counting ::
  "('a list \<Rightarrow> 's \<Rightarrow> bool \<times> 's) \<Rightarrow> 'a list \<Rightarrow> nat \<times> 's \<Rightarrow> bool \<times> (nat \<times> 's)" where
  "counting test_func xs = (\<lambda>(k, s). let (passed, s') = test_func xs s in (passed, (Suc k, s')))"

section \<open>Data model (\<^verbatim>\<open>models.py\<close>)\<close>

text \<open>
  A header entry of the capture is a dictionary read with \<^verbatim>\<open>header.get("name")\<close> and
  \<^verbatim>\<open>header.get("value", "")\<close>: either key may be missing.
\<close>

record header =
  header_name :: "string option"
  header_value :: "string option"

text \<open>
  \<^verbatim>\<open>RequestData\<close>. The fields \<^verbatim>\<open>query\<close> and \<^verbatim>\<open>raw_entry\<close> are opaque to the minimizer
  and left out.
\<close>

record RequestData =
  request_index :: int
  request_method :: string
  request_url :: string
  request_path :: string
  request_headers :: "header list"
  request_body_text :: "string option"
  request_mime_type :: "string option"

text \<open>\<^verbatim>\<open>ResponseSnapshot\<close>, without the wall-clock measurement \<^verbatim>\<open>elapsed\<close>.\<close>

record ResponseSnapshot =
  response_status_code :: "int option"
  response_body :: "string option"
  response_error :: "string option"
  response_headers :: "(string \<times> string) list"

definition length_of :: "ResponseSnapshot \<Rightarrow> nat" where
  "length_of r = (case response_body r of None \<Rightarrow> 0 | Some b \<Rightarrow> length b)"

definition ok :: "ResponseSnapshot \<Rightarrow> bool" where
  "ok r = (response_error r = None \<and> response_status_code r \<noteq> None)"

record MinimizationResult =
  result_headers :: "header list"
  result_body_text :: "string option"
  result_response :: ResponseSnapshot
  result_matched :: bool
  result_header_candidates :: nat
  result_body_candidates :: nat
  result_minimized_headers :: nat
  result_minimized_body_fields :: nat


section \<open>Python arithmetic and strings\<close>

text \<open>
  \<^verbatim>\<open>a / b\<close> on two non-negative integers is a binary64 float: the quotient rounded to
  the nearest number with a 53-bit significand, ties to even. \<open>truediv\<close> is that number
  as a rational, for \<open>b > 0\<close> and quotients in the normal range of binary64 (every
  quotient of two string lengths is); the source divides only after testing \<open>b \<noteq> 0\<close>.
\<close>

fun bit_length :: "nat \<Rightarrow> nat" where
  "bit_length n = (if n = 0 then 0 else Suc (bit_length (n div 2)))"

definition pow2 :: "int \<Rightarrow> rat" where
  "pow2 e = (if 0 \<le> e then 2 ^ nat e else 1 / 2 ^ nat (- e))"

definition round_half_even :: "rat \<Rightarrow> int" where
  "round_half_even x =
     (let f = \<lfloor>x\<rfloor>; r = x - of_int f
      in if r < 1 / 2 then f else if 1 / 2 < r then f + 1 else if even f then f else f + 1)"

definition truediv :: "nat \<Rightarrow> nat \<Rightarrow> rat" where
  "truediv a b =
     (if a = 0 then 0
      else
        let q = of_nat a / of_nat b;
            d = int (bit_length a) - int (bit_length b);
            e = (if pow2 d \<le> q then d else d - 1)
        in of_int (round_half_even (q / pow2 (e - 52))) * pow2 (e - 52))"

text \<open>
  \<^verbatim>\<open>str.lower()\<close> and \<^verbatim>\<open>str.upper()\<close> on ASCII letters; other characters are left
  as they are (header names, MIME types and the \<^verbatim>\<open>logic\<close> keyword are ASCII).
\<close>

definition lower_char :: "char \<Rightarrow> char" where
  "lower_char c =
     (case map_of (zip ''ABCDEFGHIJKLMNOPQRSTUVWXYZ'' ''abcdefghijklmnopqrstuvwxyz'') c of
        None \<Rightarrow> c | Some d \<Rightarrow> d)"

definition upper_char :: "char \<Rightarrow> char" where
  "upper_char c =
     (case map_of (zip ''abcdefghijklmnopqrstuvwxyz'' ''ABCDEFGHIJKLMNOPQRSTUVWXYZ'') c of
        None \<Rightarrow> c | Some d \<Rightarrow> d)"

definition lower :: "string \<Rightarrow> string" where
  "lower s = map lower_char s"

definition upper :: "string \<Rightarrow> string" where
  "upper s = map upper_char s"

text \<open>\<^verbatim>\<open>token in text\<close> on strings: \<open>token\<close> occurs in \<open>text\<close> as a contiguous piece.\<close>

fun contains :: "string \<Rightarrow> string \<Rightarrow> bool" where
  "contains token [] = (token = [])"
| "contains token (c # cs) = (prefix token (c # cs) \<or> contains token cs)"


section \<open>The equivalence oracle (\<^verbatim>\<open>comparator.py\<close>)\<close>

text \<open>
  \<^verbatim>\<open>ComparatorConfig\<close> is declared in \<^verbatim>\<open>config.py\<close>; its fields are the ones
  \<^verbatim>\<open>ResponseComparator\<close> reads. A regular expression is kept in compiled form, an
  element of the type \<open>'rx\<close>, and \<^verbatim>\<open>pattern.search(text)\<close> is the parameter \<open>search\<close>
  of the functions below. The tolerance is the rational value of a finite float.
\<close>

record 'rx ComparatorConfig =
  cmp_status_code :: bool
  cmp_length_check :: bool
  cmp_length_tolerance :: rat
  cmp_need_all :: "string list"
  cmp_need_any :: "string list"
  cmp_regex :: "'rx list"
  cmp_logic :: string

definition status_equal :: "ResponseSnapshot \<Rightarrow> ResponseSnapshot \<Rightarrow> bool" where
  "status_equal base cand = (response_status_code base = response_status_code cand)"

definition length_within :: "'rx ComparatorConfig \<Rightarrow> ResponseSnapshot \<Rightarrow> ResponseSnapshot \<Rightarrow> bool" where
  "length_within cfg base cand =
     (if length_of base = 0 then length_of cand = 0
      else
        let delta = truediv (nat \<bar>int (length_of base) - int (length_of cand)\<bar>) (length_of base)
        in delta \<le> cmp_length_tolerance cfg)"

definition need_all :: "'rx ComparatorConfig \<Rightarrow> ResponseSnapshot \<Rightarrow> bool" where
  "need_all cfg cand =
     (case response_body cand of
        None \<Rightarrow> False
      | Some b \<Rightarrow> list_all (\<lambda>token. contains token b) (cmp_need_all cfg))"

definition need_any :: "'rx ComparatorConfig \<Rightarrow> ResponseSnapshot \<Rightarrow> bool" where
  "need_any cfg cand =
     (case response_body cand of
        None \<Rightarrow> False
      | Some b \<Rightarrow> list_ex (\<lambda>token. contains token b) (cmp_need_any cfg))"

definition regex_match ::
  "('rx \<Rightarrow> string \<Rightarrow> bool) \<Rightarrow> 'rx ComparatorConfig \<Rightarrow> ResponseSnapshot \<Rightarrow> bool" where
  "regex_match search cfg cand =
     (case response_body cand of
        None \<Rightarrow> False
      | Some b \<Rightarrow> list_all (\<lambda>pattern. search pattern b) (cmp_regex cfg))"

definition equivalent ::
  "('rx \<Rightarrow> string \<Rightarrow> bool) \<Rightarrow> 'rx ComparatorConfig \<Rightarrow> ResponseSnapshot \<Rightarrow> ResponseSnapshot \<Rightarrow> bool" where
  "equivalent search cfg baseline candidate =
     (if \<not> ok baseline \<or> \<not> ok candidate then False
      else
        let checks =
              [(cmp_status_code cfg, status_equal baseline candidate),
               (cmp_length_check cfg, length_within cfg baseline candidate),
               (cmp_need_all cfg \<noteq> [], need_all cfg candidate),
               (cmp_need_any cfg \<noteq> [], need_any cfg candidate),
               (cmp_regex cfg \<noteq> [], regex_match search cfg candidate)];
            active = map snd (filter fst checks)
        in if active = [] then True
           else if upper (cmp_logic cfg) = ''OR'' then list_ex (\<lambda>result. result) active
           else list_all (\<lambda>result. result) active)"

section \<open>Example data\<close>

text \<open>Concrete responses and configurations, used where a statement is run on an input.\<close>

definition snapshot :: "int \<Rightarrow> string \<Rightarrow> ResponseSnapshot" where
  "snapshot code text =
     \<lparr>response_status_code = Some code, response_body = Some text, response_error = None,
      response_headers = []\<rparr>"

definition tolerant :: "rat \<Rightarrow> unit ComparatorConfig" where
  "tolerant t =
     \<lparr>cmp_status_code = False, cmp_length_check = True, cmp_length_tolerance = t,
      cmp_need_all = [], cmp_need_any = [], cmp_regex = [], cmp_logic = ''and''\<rparr>"

section \<open>Properties of the engine\<close>

lemma subseq_take_drop:
  assumes "a \<le> b"
  shows "subseq (take a xs @ drop b xs) xs"
proof -
  have "subseq (drop b xs) (drop a xs)"
    using assms by (metis drop_drop le_Suc_ex suffix_drop suffix_imp_subseq add.commute)
  then have "subseq (take a xs @ drop b xs) (take a xs @ drop a xs)"
    by (intro list_emb_append_mono) simp_all
  then show ?thesis by simp
qed

lemma length_take_drop:
  "start < length xs \<Longrightarrow> 0 < k \<Longrightarrow> length (take start xs @ drop (start + k) xs) < length xs"
  by simp

lemma ceil_div_pos: "0 < a \<Longrightarrow> 0 < b \<Longrightarrow> 0 < ceil_div a b"
  by (simp add: ceil_div_def div_greater_zero_iff)

text \<open>
  The inner loop returns. \<open>J\<close> is any invariant of the test counter and the predicate's
  state that one more call of the predicate (on a subsequence of the collection, with
  budget left) keeps.
\<close>

lemma ddmin_scan_total:
  assumes sz: "0 < subset_size"
    and J: "J tests s"
    and step: "\<And>xs t s. subseq xs collection \<Longrightarrow> J t s \<Longrightarrow> \<not> budget_spent max_tests t
                 \<Longrightarrow> J (Suc t) (snd (test_func xs s))"
  shows "\<exists>r. ddmin_scan test_func max_tests collection subset_size start tests s = Some r \<and>
           (case r of
              Exhausted t s' \<Rightarrow> J t s' \<and> budget_spent max_tests t
            | Removed remainder t s' \<Rightarrow>
                J t s' \<and> subseq remainder collection \<and> length remainder < length collection
            | Unchanged t s' \<Rightarrow> J t s')"
  using J
proof (induction "length collection - start" arbitrary: start tests s rule: less_induct)
  case less
  show ?case
  proof (cases "start < length collection")
    case False
    then show ?thesis
      using less.prems by (subst ddmin_scan.simps) simp
  next
    case inrange: True
    show ?thesis
    proof (cases "budget_spent max_tests tests")
      case True
      then show ?thesis
        using inrange less.prems by (subst ddmin_scan.simps) simp
    next
      case False
      define remainder
        where "remainder = take start collection @ drop (start + subset_size) collection"
      obtain passed s' where call: "test_func remainder s = (passed, s')"
        by (cases "test_func remainder s")
      have sub: "subseq remainder collection"
        unfolding remainder_def by (rule subseq_take_drop) simp
      have J': "J (Suc tests) s'"
        using step [OF sub less.prems False] call by simp
      show ?thesis
      proof (cases passed)
        case True
        have "length remainder < length collection"
          unfolding remainder_def using inrange sz by (rule length_take_drop)
        then show ?thesis
          using inrange False call True J' sub
          by (subst ddmin_scan.simps) (simp add: remainder_def)
      next
        case notpassed: False
        have "length collection - (start + subset_size) < length collection - start"
          using inrange sz by simp
        from less.hyps [OF this J']
        show ?thesis
          using inrange False call notpassed
          by (subst ddmin_scan.simps) (simp add: remainder_def)
      qed
    qed
  qed
qed

text \<open>
  One round returns, and what it returns: the function's result (the collection as it
  stands), or a strictly shorter collection, or the same collection with a strictly
  larger granularity that is at most the collection's length.
\<close>

lemma ddmin_round_total:
  assumes n: "2 \<le> n"
    and nonempty: "collection \<noteq> []"
    and J: "J tests s"
    and step: "\<And>xs t s. subseq xs collection \<Longrightarrow> J t s \<Longrightarrow> \<not> budget_spent max_tests t
                 \<Longrightarrow> J (Suc t) (snd (test_func xs s))"
  shows "\<exists>r. ddmin_round test_func max_tests collection n tests s = Some r \<and>
           (case r of
              Return result \<Rightarrow>
                fst (fst result) = collection \<and> J (snd (fst result)) (snd result) \<and>
                (budget_spent max_tests (snd (fst result)) \<or> length collection \<le> n)
            | Continue collection' n' t s' \<Rightarrow>
                J t s' \<and> 2 \<le> n' \<and> subseq collection' collection \<and>
                (length collection' < length collection \<or>
                 collection' = collection \<and> n < n' \<and> n' \<le> length collection))"
proof -
  have "0 < ceil_div (length collection) n"
    using nonempty n by (intro ceil_div_pos) auto
  then have "\<exists>r. ddmin_scan test_func max_tests collection (ceil_div (length collection) n) 0 tests s
                  = Some r \<and>
           (case r of
              Exhausted t s' \<Rightarrow> J t s' \<and> budget_spent max_tests t
            | Removed remainder t s' \<Rightarrow>
                J t s' \<and> subseq remainder collection \<and> length remainder < length collection
            | Unchanged t s' \<Rightarrow> J t s')"
    using J step by (intro ddmin_scan_total [where J = J and test_func = test_func]) auto
  then obtain r where
    scan: "ddmin_scan test_func max_tests collection (ceil_div (length collection) n) 0 tests s
             = Some r"
    and post: "case r of
              Exhausted t s' \<Rightarrow> J t s' \<and> budget_spent max_tests t
            | Removed remainder t s' \<Rightarrow>
                J t s' \<and> subseq remainder collection \<and> length remainder < length collection
            | Unchanged t s' \<Rightarrow> J t s'"
    by blast
  show ?thesis
  proof (cases r)
    case (Exhausted t s')
    then show ?thesis
      using scan post by (simp add: ddmin_round_def)
  next
    case (Removed remainder t s')
    then show ?thesis
      using scan post by (simp add: ddmin_round_def)
  next
    case (Unchanged t s')
    then show ?thesis
      using scan post n by (auto simp: ddmin_round_def)
  qed
qed

text \<open>The outer loop returns: by induction on the collection's length, then on the
  distance of the granularity from it.\<close>

lemma ddmin_loop_total:
  assumes n: "2 \<le> n"
    and sub: "subseq collection items"
    and J: "J tests s"
    and step: "\<And>xs t s. subseq xs items \<Longrightarrow> J t s \<Longrightarrow> \<not> budget_spent max_tests t
                 \<Longrightarrow> J (Suc t) (snd (test_func xs s))"
  shows "\<exists>c t s'. ddmin_loop test_func max_tests collection n tests s = Some ((c, t), s') \<and>
           subseq c collection \<and> J t s'"
  using n sub J
proof (induction "length collection" arbitrary: collection n tests s rule: less_induct)
  case outer: less
  show ?case
    using outer.prems
  proof (induction "length collection - n" arbitrary: n tests s rule: less_induct)
    case inner: less
    show ?case
    proof (cases "1 \<le> length collection")
      case False
      then show ?thesis
        using inner.prems by (subst ddmin_loop.simps) simp
    next
      case nonempty: True
      have step': "\<And>xs t s. subseq xs collection \<Longrightarrow> J t s \<Longrightarrow> \<not> budget_spent max_tests t
                 \<Longrightarrow> J (Suc t) (snd (test_func xs s))"
        using step inner.prems(2) subseq_order.trans by blast
      have "collection \<noteq> []"
        using nonempty by auto
      from ddmin_round_total [where J = J and test_func = test_func and max_tests = max_tests,
          OF inner.prems(1) this inner.prems(3) step']
      obtain r where
        round: "ddmin_round test_func max_tests collection n tests s = Some r"
        and post: "case r of
              Return result \<Rightarrow>
                fst (fst result) = collection \<and> J (snd (fst result)) (snd result) \<and>
                (budget_spent max_tests (snd (fst result)) \<or> length collection \<le> n)
            | Continue collection' n' t s' \<Rightarrow>
                J t s' \<and> 2 \<le> n' \<and> subseq collection' collection \<and>
                (length collection' < length collection \<or>
                 collection' = collection \<and> n < n' \<and> n' \<le> length collection)"
        by blast
      show ?thesis
      proof (cases r)
        case (Return result)
        then show ?thesis
          using nonempty round post
          by (subst ddmin_loop.simps) (cases result, auto)
      next
        case (Continue collection' n' t s')
        then have J': "J t s'" and n': "2 \<le> n'" and sub': "subseq collection' collection"
          and less: "length collection' < length collection \<or>
                 collection' = collection \<and> n < n' \<and> n' \<le> length collection"
          using post by simp_all
        have sub_items: "subseq collection' items"
          using sub' inner.prems(2) subseq_order.trans by blast
        have "\<exists>c t' s''. ddmin_loop test_func max_tests collection' n' t s' = Some ((c, t'), s'')
                \<and> subseq c collection' \<and> J t' s''"
          using less
        proof
          assume "length collection' < length collection"
          from outer.hyps [OF this n' sub_items J'] show ?thesis .
        next
          assume same: "collection' = collection \<and> n < n' \<and> n' \<le> length collection"
          then have "length collection - n' < length collection - n"
            by arith
          from inner.hyps [OF this n' inner.prems(2) J'] same show ?thesis
            by simp
        qed
        then obtain c t' s'' where
          "ddmin_loop test_func max_tests collection' n' t s' = Some ((c, t'), s'')"
          "subseq c collection'" "J t' s''"
          by blast
        moreover have "subseq c collection"
          using \<open>subseq c collection'\<close> sub' subseq_order.trans by blast
        ultimately show ?thesis
          using nonempty round Continue by (subst ddmin_loop.simps) simp
      qed
    qed
  qed
qed

text \<open>
  The engine returns, with a subsequence of its input, and every invariant of the
  predicate's calls holds of the counter and the state it returns.
\<close>

lemma ddmin_total:
  assumes J: "J 0 s"
    and step: "\<And>xs t s. subseq xs items \<Longrightarrow> J t s \<Longrightarrow> \<not> budget_spent max_tests t
                 \<Longrightarrow> J (Suc t) (snd (test_func xs s))"
  shows "\<exists>c t s'. ddmin items test_func max_tests s = Some ((c, t), s') \<and>
           subseq c items \<and> J t s'"
proof (cases "items = [] \<or> (case max_tests of None \<Rightarrow> False | Some m \<Rightarrow> m \<le> 0)")
  case True
  then show ?thesis
    using J by (auto simp: ddmin_def)
next
  case False
  then have "ddmin items test_func max_tests s = ddmin_loop test_func max_tests items 2 0 s"
    by (simp add: ddmin_def)
  then show ?thesis
    using ddmin_loop_total [where J = J and items = items and collection = items and n = 2
        and test_func = test_func and max_tests = max_tests, OF _ _ J step]
    by simp
qed

section \<open>Claims about the engine\<close>

text \<open>
  C3. For every input sequence \<open>S\<close>, predicate \<open>P\<close> (in any state \<open>s\<close>) and budget, the
  engine returns, and what it returns is a subsequence of \<open>S\<close>: elements of \<open>S\<close> in their
  original order. For the empty sequence it returns the empty sequence with zero tests,
  and for a budget \<open>b \<le> 0\<close> it returns \<open>S\<close> itself with zero tests; in both cases the
  predicate's state is untouched, so the predicate was never called.
\<close>

theorem ddmin_subsequence:
  "(\<exists>S' testsUsed s'. ddmin S P budget s = Some ((S', testsUsed), s') \<and> subseq S' S) \<and>
   ddmin [] P budget s = Some (([], 0), s) \<and>
   (b \<le> 0 \<longrightarrow> ddmin S P (Some b) s = Some ((S, 0), s))"
proof -
  have "\<exists>c t s'. ddmin S P budget s = Some ((c, t), s') \<and> subseq c S \<and> True"
    by (rule ddmin_total [where J = "\<lambda>_ _. True"]) simp_all
  then show ?thesis
    by (auto simp: ddmin_def)
qed

text \<open>The budget \<open>0\<close> on a three-element sequence.\<close>

theorem ddmin_subsequence_witness:
  "(\<exists>S' testsUsed s'.
      ddmin [1, 2, 3 :: nat] (\<lambda>xs (s :: nat). (2 \<in> set xs, s + 1)) (Some 0) 0
        = Some ((S', testsUsed), s') \<and> subseq S' [1, 2, 3]) \<and>
   ddmin [1, 2, 3 :: nat] (\<lambda>xs (s :: nat). (2 \<in> set xs, s + 1)) (Some 0) 0
     = Some (([1, 2, 3], 0), 0)"
  using ddmin_subsequence [of "[1, 2, 3 :: nat]" "\<lambda>xs (s :: nat). (2 \<in> set xs, s + 1)" "Some 0" 0 0]
  by simp

text \<open>
  C10. With no budget (\<^verbatim>\<open>max_tests=None\<close>) the engine returns for every finite sequence,
  every predicate and every state: its result is never \<open>None\<close>. One round, entered with
  a granularity \<open>n \<ge> 2\<close> on a non-empty collection, returns too, and it ends the loop only
  when \<open>n\<close> has reached the collection's length; otherwise the next round starts with a
  strictly shorter collection, or with the same collection and a strictly larger \<open>n\<close> that
  is at most the collection's length.
\<close>

theorem ddmin_terminates_unbounded:
  "(\<exists>result. ddmin items test_func None s = Some result) \<and>
   (2 \<le> n \<and> collection \<noteq> [] \<longrightarrow>
     (\<exists>r. ddmin_round test_func None collection n tests s = Some r \<and>
        (case r of
           Return result \<Rightarrow> fst (fst result) = collection \<and> length collection \<le> n
         | Continue collection' n' tests' s' \<Rightarrow>
             length collection' < length collection \<or>
             collection' = collection \<and> n < n' \<and> n' \<le> length collection)))"
proof -
  have "\<exists>c t s'. ddmin items test_func None s = Some ((c, t), s') \<and> subseq c items \<and> True"
    by (rule ddmin_total [where J = "\<lambda>_ _. True"]) simp_all
  then have first: "\<exists>result. ddmin items test_func None s = Some result"
    by blast
  have second: "\<exists>r. ddmin_round test_func None collection n tests s = Some r \<and>
        (case r of
           Return result \<Rightarrow> fst (fst result) = collection \<and> length collection \<le> n
         | Continue collection' n' tests' s' \<Rightarrow>
             length collection' < length collection \<or>
             collection' = collection \<and> n < n' \<and> n' \<le> length collection)"
    if "2 \<le> n" "collection \<noteq> []"
  proof -
    from ddmin_round_total [where J = "\<lambda>_ _. True" and test_func = test_func
        and max_tests = None and tests = tests and s = s, OF that]
    obtain r where "ddmin_round test_func None collection n tests s = Some r"
      and "case r of
              Return result \<Rightarrow>
                fst (fst result) = collection \<and> True \<and>
                (budget_spent None (snd (fst result)) \<or> length collection \<le> n)
            | Continue collection' n' t s' \<Rightarrow>
                True \<and> 2 \<le> n' \<and> subseq collection' collection \<and>
                (length collection' < length collection \<or>
                 collection' = collection \<and> n < n' \<and> n' \<le> length collection)"
      by auto
    then show ?thesis
      by (cases r) (auto simp: budget_spent_def)
  qed
  show ?thesis
    using first second by blast
qed

text \<open>A predicate that never passes on five elements: the first round raises \<open>n\<close> from 2
  to 4, and the engine stops after ten tests.\<close>

theorem ddmin_terminates_unbounded_witness:
  "(\<exists>result. ddmin [1, 2, 3, 4, 5 :: nat] (\<lambda>xs (s :: nat). (False, s + 1)) None 0
      = Some result) \<and>
   ddmin_round (\<lambda>xs (s :: nat). (False, s + 1)) None [1, 2, 3, 4, 5 :: nat] 2 0 0
     = Some (Continue [1, 2, 3, 4, 5] 4 2 2) \<and>
   ddmin [1, 2, 3, 4, 5 :: nat] (\<lambda>xs (s :: nat). (False, s + 1)) None 0
     = Some (([1, 2, 3, 4, 5], 10), 10)"
proof -
  have r1: "ddmin_round (\<lambda>xs (s :: nat). (False, s + 1)) None [1, 2, 3, 4, 5 :: nat] 2 0 0
     = Some (Continue [1, 2, 3, 4, 5] 4 2 2)"
    by code_simp
  have r2: "ddmin [1, 2, 3, 4, 5 :: nat] (\<lambda>xs (s :: nat). (False, s + 1)) None 0
     = Some (([1, 2, 3, 4, 5], 10), 10)"
    by code_simp
  show ?thesis
    using r1 r2
      ddmin_terminates_unbounded [of "[1, 2, 3, 4, 5 :: nat]"
        "\<lambda>xs (s :: nat). (False, s + 1)" 0 2 "[1, 2, 3, 4, 5 :: nat]" 0]
    by simp
qed

text \<open>
  C4. Run with a predicate whose calls are counted in the state, the engine reports as
  \<open>testsUsed\<close> exactly the number of calls it made; with a positive budget \<open>b\<close> that
  number is at most \<open>b\<close>. When the budget is found spent before a chunk is tested, the
  inner loop stops there without another call, and the engine returns the collection as
  it stands at that moment, with the counter and the state unchanged.
\<close>

theorem ddmin_budget:
  "(\<exists>c t s'. ddmin items (counting test_func) max_tests (k, s) = Some ((c, t), (k + t, s')) \<and>
      (\<forall>b. max_tests = Some b \<and> 0 < b \<longrightarrow> int t \<le> b)) \<and>
   (budget_spent max_tests tests \<and> start < length collection \<longrightarrow>
      ddmin_scan test_func max_tests collection subset_size start tests s
        = Some (Exhausted tests s)) \<and>
   (budget_spent max_tests tests \<and> collection \<noteq> [] \<longrightarrow>
      ddmin_loop test_func max_tests collection n tests s = Some ((collection, tests), s))"
proof -
  define J where "J = (\<lambda>t (ks :: nat \<times> 'b).
    fst ks = k + t \<and> (\<forall>b. max_tests = Some b \<and> 0 < b \<longrightarrow> int t \<le> b))"
  have "\<exists>c t s'. ddmin items (counting test_func) max_tests (k, s) = Some ((c, t), s') \<and>
           subseq c items \<and> J t s'"
  proof (rule ddmin_total [where J = J])
    show "J 0 (k, s)"
      by (simp add: J_def)
  next
    fix xs t and ks :: "nat \<times> 'b"
    assume "J t ks" "\<not> budget_spent max_tests t"
    then show "J (Suc t) (snd (counting test_func xs ks))"
      by (cases ks) (auto simp: J_def counting_def budget_spent_def split: prod.splits)
  qed
  then have first: "\<exists>c t s'. ddmin items (counting test_func) max_tests (k, s)
      = Some ((c, t), (k + t, s')) \<and> (\<forall>b. max_tests = Some b \<and> 0 < b \<longrightarrow> int t \<le> b)"
    by (auto simp: J_def)
  have second: "ddmin_scan test_func max_tests collection subset_size start tests s
        = Some (Exhausted tests s)"
    if "budget_spent max_tests tests" "start < length collection"
    using that by (subst ddmin_scan.simps) simp
  have third: "ddmin_loop test_func max_tests collection n tests s
        = Some ((collection, tests), s)"
    if "budget_spent max_tests tests" "collection \<noteq> []"
  proof -
    have "0 < length collection"
      using that(2) by simp
    then have "ddmin_scan test_func max_tests collection (ceil_div (length collection) n) 0 tests s
        = Some (Exhausted tests s)"
      using that(1) by (subst ddmin_scan.simps) simp
    then show ?thesis
      using that(2) by (subst ddmin_loop.simps) (simp add: ddmin_round_def Suc_le_eq)
  qed
  show ?thesis
    using first second third by blast
qed

text \<open>Budget 1 and a predicate that always passes: the first test removes three of five
  elements, the second round finds the budget spent and returns the two that are left,
  not the original five.\<close>

theorem ddmin_budget_witness:
  "ddmin [1, 2, 3, 4, 5 :: nat] (counting (\<lambda>xs (s :: unit). (True, s))) (Some 1) (0, ())
     = Some (([4, 5], 1), (1, ())) \<and>
   ddmin_scan (\<lambda>xs (s :: unit). (True, s)) (Some 1) [4, 5 :: nat] 1 0 1 ()
     = Some (Exhausted 1 ()) \<and>
   ddmin_loop (\<lambda>xs (s :: unit). (True, s)) (Some 1) [4, 5 :: nat] 2 1 ()
     = Some (([4, 5], 1), ())"
proof -
  have run: "ddmin [1, 2, 3, 4, 5 :: nat] (counting (\<lambda>xs (s :: unit). (True, s))) (Some 1) (0, ())
     = Some (([4, 5], 1), (1, ()))"
    by code_simp
  have spent: "budget_spent (Some 1) 1"
    by (simp add: budget_spent_def)
  show ?thesis
    using run spent
      ddmin_budget [of "[1, 2, 3, 4, 5 :: nat]" "\<lambda>xs (s :: unit). (True, s)" "Some 1" 0 "()"
        1 0 "[4, 5 :: nat]" 1 2]
    by simp
qed

section \<open>Claims about the equivalence oracle\<close>

text \<open>
  C7. The length signal passes exactly when the baseline body is empty and the candidate
  body is empty too, or the baseline body is not empty and the float quotient
  \<open>|len(base) - len(cand)| / len(base)\<close> is at most the tolerance. With a baseline of
  length 100 and the tolerance \<^verbatim>\<open>0.1\<close> (the float \<open>3602879701896397 / 2 ^ 55\<close>) a
  candidate of length 110 passes and one of length 111 fails, and two empty bodies pass
  whatever the tolerance is.
\<close>

theorem length_within_tolerance:
  "length_within cfg base cand =
     (if length_of base = 0 then length_of cand = 0
      else truediv (nat \<bar>int (length_of base) - int (length_of cand)\<bar>) (length_of base)
             \<le> cmp_length_tolerance cfg) \<and>
   (length_of base = 100 \<and> cmp_length_tolerance cfg = 3602879701896397 / 36028797018963968 \<longrightarrow>
      (length_of cand = 110 \<longrightarrow> length_within cfg base cand) \<and>
      (length_of cand = 111 \<longrightarrow> \<not> length_within cfg base cand)) \<and>
   (length_of base = 0 \<and> length_of cand = 0 \<longrightarrow> length_within cfg base cand)"
proof -
  have ten: "truediv 10 100 = 3602879701896397 / 36028797018963968"
    by code_simp
  have eleven: "truediv 11 100 = 7926335344172073 / 72057594037927936"
    by code_simp
  show ?thesis
    by (simp add: length_within_def ten eleven)
qed

text \<open>Bodies of 100, 110 and 111 characters at tolerance 0.1, and two empty bodies at
  the tolerance \<open>- 5\<close>.\<close>

theorem length_within_tolerance_witness:
  "length_within (tolerant (3602879701896397 / 36028797018963968))
     (snapshot 200 (replicate 100 CHR ''a'')) (snapshot 200 (replicate 110 CHR ''a'')) \<and>
   \<not> length_within (tolerant (3602879701896397 / 36028797018963968))
     (snapshot 200 (replicate 100 CHR ''a'')) (snapshot 200 (replicate 111 CHR ''a'')) \<and>
   length_within (tolerant (- 5)) (snapshot 200 []) (snapshot 200 [])"
proof -
  have len: "length_of (snapshot 200 (replicate n CHR ''a'')) = n" for n
    by (simp add: length_of_def snapshot_def)
  have empty: "length_of (snapshot 200 []) = 0"
    by (simp add: length_of_def snapshot_def)
  have tol: "cmp_length_tolerance (tolerant t) = t" for t
    by (simp add: tolerant_def)
  show ?thesis
    using
      length_within_tolerance [of "tolerant (3602879701896397 / 36028797018963968)"
        "snapshot 200 (replicate 100 CHR ''a'')" "snapshot 200 (replicate 110 CHR ''a'')",
        THEN conjunct2]
      length_within_tolerance [of "tolerant (3602879701896397 / 36028797018963968)"
        "snapshot 200 (replicate 100 CHR ''a'')" "snapshot 200 (replicate 111 CHR ''a'')",
        THEN conjunct2]
      length_within_tolerance [of "tolerant (- 5)" "snapshot 200 []" "snapshot 200 []",
        THEN conjunct2]
    by (simp add: len empty tol)
qed

text \<open>
  C6, as stated, fails: with the length check enabled and a negative tolerance, a healthy
  snapshot with a non-empty body is not equivalent to itself, though it meets every
  configured requirement (there is none).
\<close>

theorem equivalent_self_counterexample:
  "ok (snapshot 200 ''x'') \<and> cmp_length_check (tolerant (- 1)) \<and>
   cmp_need_all (tolerant (- 1)) = [] \<and> cmp_need_any (tolerant (- 1)) = [] \<and>
   cmp_regex (tolerant (- 1)) = [] \<and>
   \<not> equivalent (\<lambda>pattern text. True) (tolerant (- 1)) (snapshot 200 ''x'') (snapshot 200 ''x'')"
  by (simp add: equivalent_def ok_def snapshot_def tolerant_def length_within_def length_of_def
      truediv_def upper_def)

text \<open>
  C6, amended. A healthy snapshot that meets its own configured requirements (each of
  the required substrings, any-substrings and patterns that is configured holds of it)
  is equivalent to itself, provided the length tolerance is not negative when the length
  check is enabled. With no signal enabled every two healthy snapshots are equivalent.
  Whenever one of the two snapshots is unhealthy, they are not equivalent, whatever the
  configuration.
\<close>

theorem equivalent_self:
  "(ok s \<and>
    (cmp_need_all cfg \<noteq> [] \<longrightarrow> need_all cfg s) \<and>
    (cmp_need_any cfg \<noteq> [] \<longrightarrow> need_any cfg s) \<and>
    (cmp_regex cfg \<noteq> [] \<longrightarrow> regex_match search cfg s) \<and>
    (cmp_length_check cfg \<longrightarrow> 0 \<le> cmp_length_tolerance cfg) \<longrightarrow>
      equivalent search cfg s s) \<and>
   (ok a \<and> ok b \<and> \<not> cmp_status_code cfg \<and> \<not> cmp_length_check cfg \<and>
    cmp_need_all cfg = [] \<and> cmp_need_any cfg = [] \<and> cmp_regex cfg = [] \<longrightarrow>
      equivalent search cfg a b) \<and>
   (\<not> ok a \<or> \<not> ok b \<longrightarrow> \<not> equivalent search cfg a b)"
proof -
  have len: "length_within cfg s s" if "0 \<le> cmp_length_tolerance cfg"
    using that by (simp add: length_within_def truediv_def)
  have "equivalent search cfg s s"
    if "ok s" "cmp_need_all cfg \<noteq> [] \<longrightarrow> need_all cfg s"
      "cmp_need_any cfg \<noteq> [] \<longrightarrow> need_any cfg s"
      "cmp_regex cfg \<noteq> [] \<longrightarrow> regex_match search cfg s"
      "cmp_length_check cfg \<longrightarrow> 0 \<le> cmp_length_tolerance cfg"
    using that len by (auto simp: equivalent_def status_equal_def)
  moreover have "equivalent search cfg a b"
    if "ok a" "ok b" "\<not> cmp_status_code cfg" "\<not> cmp_length_check cfg"
      "cmp_need_all cfg = []" "cmp_need_any cfg = []" "cmp_regex cfg = []"
    using that by (simp add: equivalent_def)
  moreover have "\<not> equivalent search cfg a b" if "\<not> ok a \<or> \<not> ok b"
    using that by (auto simp: equivalent_def)
  ultimately show ?thesis
    by blast
qed

text \<open>A snapshot compared with itself at tolerance 0; two different healthy snapshots
  with no signal enabled; an unhealthy baseline.\<close>

theorem equivalent_self_witness:
  "equivalent (\<lambda>pattern text. True) (tolerant 0) (snapshot 200 ''x'') (snapshot 200 ''x'') \<and>
   equivalent (\<lambda>pattern text. True) ((tolerant 0)\<lparr>cmp_length_check := False\<rparr>)
     (snapshot 200 ''x'') (snapshot 404 ''other'') \<and>
   \<not> equivalent (\<lambda>pattern text. True) (tolerant 0)
     ((snapshot 200 ''x'')\<lparr>response_error := Some ''timeout''\<rparr>) (snapshot 200 ''x'')"
  using
    equivalent_self [of "snapshot 200 ''x''" "tolerant 0" "\<lambda>pattern text. True"
      "snapshot 200 ''x''" "snapshot 200 ''x''"]
    equivalent_self [of "snapshot 200 ''x''" "(tolerant 0)\<lparr>cmp_length_check := False\<rparr>"
      "\<lambda>pattern text. True" "snapshot 200 ''x''" "snapshot 404 ''other''"]
    equivalent_self [of "snapshot 200 ''x''" "tolerant 0" "\<lambda>pattern text. True"
      "(snapshot 200 ''x'')\<lparr>response_error := Some ''timeout''\<rparr>" "snapshot 200 ''x''"]
  by (simp add: ok_def snapshot_def tolerant_def)

end
